theory Spec2Isabelle
  imports Complex_Main
begin

section \<open>JavaScript values and strict equality\<close>

text \<open>
  \<^verbatim>\<open>Value<ValueType = AnyType>\<close> of \<^verbatim>\<open>src/lib/value.ts\<close> stores any
  JavaScript value. The class compares values with \<^verbatim>\<open>!==\<close> and tests them against
  \<^verbatim>\<open>undefined\<close> and \<^verbatim>\<open>null\<close>, so the model keeps exactly what these
  tests can see: the type of a value, its content for a primitive, and the identity of the
  reference for an object or an array. An object is plain data, as the values of a property
  are: it is not a promise.

  A number is NaN, an infinity or a finite value. The two zeros are one value here:
  \<^verbatim>\<open>===\<close> does not tell them apart, and the class uses no other comparison.
\<close>

datatype number = NaN | NegInfinity | Finite rat | Infinity

datatype jsval =
    JUndefined
  | JNull
  | JBoolean bool
  | JNumber number
  | JString string
  | JObject nat

text \<open>
  \<^verbatim>\<open>a === b\<close>: the same type and the same value, except that NaN is equal to
  nothing, itself included; objects are equal when they are the same reference.
\<close>

definition strict_eq :: "jsval \<Rightarrow> jsval \<Rightarrow> bool" where
  "strict_eq a b = (if a = JNumber NaN \<or> b = JNumber NaN then False else a = b)"

text \<open>\<^verbatim>\<open>typeof value !== 'undefined' && value !== null\<close>\<close>

definition non_empty :: "jsval \<Rightarrow> bool" where
  "non_empty v = (v \<noteq> JUndefined \<and> v \<noteq> JNull)"

section \<open>Callbacks, promises and the trace of effects\<close>

text \<open>
  The forwarder and the requestor are callbacks of the embedding application
  (\<^verbatim>\<open>Value.Forwarder<T> = (value: T) => void | Promise<void>\<close>,
  \<^verbatim>\<open>Value.Requestor<T> = () => T | Promise<T>\<close>). A call of one of them ends in one
  of four ways: it returns a value (directly, or as a promise that is fulfilled with it),
  it throws, it returns a promise that is rejected, or it returns a promise that is never
  settled. The callbacks talk to the backing system, whose state is the type parameter
  \<open>'w\<close>: a callback reads and changes it, so two calls may answer differently. They do
  not call back into the \<^verbatim>\<open>Value\<close> they belong to.
\<close>

datatype 'a outcome = Returns 'a | Throws jsval | Rejects jsval | Never

type_synonym 'w Forwarder = "jsval \<Rightarrow> 'w \<Rightarrow> unit outcome \<times> 'w"
type_synonym 'w Requestor = "'w \<Rightarrow> jsval outcome \<times> 'w"

text \<open>
  What the caller of \<^verbatim>\<open>set\<close> or \<^verbatim>\<open>get\<close> sees: the promise is fulfilled,
  the promise is rejected, the call itself throws (a callback that throws does so inside
  the argument of \<^verbatim>\<open>Promise.resolve\<close>, before any promise exists), or the promise
  stays pending.
\<close>

datatype 'a completion = Fulfilled 'a | Rejected jsval | Thrown jsval | Pending

fun failed :: "'a completion \<Rightarrow> bool" where
  "failed (Rejected e) = True"
| "failed (Thrown e) = True"
| "failed (Fulfilled x) = False"
| "failed Pending = False"

fun raises :: "'a outcome \<Rightarrow> bool" where
  "raises (Throws e) = True"
| "raises (Rejects e) = True"
| "raises (Returns x) = False"
| "raises Never = False"

text \<open>
  The promise that \<^verbatim>\<open>.then(callback)\<close> gives on a fulfilled promise: fulfilled with
  what the callback returns, rejected with what it throws.
\<close>

definition then_promise :: "jsval option \<Rightarrow> 'a \<Rightarrow> 'a completion" where
  "then_promise exception result =
     (case exception of None \<Rightarrow> Fulfilled result | Some e \<Rightarrow> Rejected e)"

text \<open>
  A listener is a function registered on the \<^verbatim>\<open>'update'\<close> event. It has a name, by
  which the trace tells the listeners apart, and a reaction to the value it is called with:
  it returns (\<open>None\<close>) or it throws an exception (\<open>Some e\<close>). Like the other callbacks
  it does not call back into the \<^verbatim>\<open>Value\<close>. The effects of an operation are recorded
  in the order they happen.
\<close>

datatype listener = Listener (name: nat) (reaction: "jsval \<Rightarrow> jsval option")

datatype event =
    ForwarderCalled jsval
  | RequestorCalled
  | Assigned jsval
  | EmitUpdate jsval
  | ListenerCalled nat jsval

section \<open>The class Value\<close>

record 'w Value =
  lastValue :: jsval
  valueForwarder :: "'w Forwarder option"
  valueRequestor :: "'w Requestor option"
  listeners :: "listener list"

text \<open>
  The constructor stores its three arguments; \<^verbatim>\<open>super()\<close> gives an emitter with no
  listener.
\<close>

definition new_Value ::
    "jsval \<Rightarrow> 'w Forwarder option \<Rightarrow> 'w Requestor option \<Rightarrow> 'w Value" where
  "new_Value initialValue forwarder requestor =
     \<lparr>lastValue = initialValue, valueForwarder = forwarder,
      valueRequestor = requestor, listeners = []\<rparr>"

text \<open>
  Modelled from the spec: \<^verbatim>\<open>EventEmitter\<close> is the \<^verbatim>\<open>events\<close> module of Node.js
  and not a file of the repository. Section 4.1 has the update procedure "emit a single
  change notification carrying v to all currently registered observers, synchronously, in
  registration order". The spec does not say what happens when an observer raises; Node's
  \<^verbatim>\<open>emit\<close> calls the listeners one after the other inside the call, and an exception
  of a listener leaves \<^verbatim>\<open>emit\<close> at once: the listeners registered after it are not
  called, and the exception reaches the caller of \<^verbatim>\<open>emit\<close>.
\<close>

definition on :: "listener \<Rightarrow> 'w Value \<Rightarrow> 'w Value" where
  "on l s = s\<lparr>listeners := listeners s @ [l]\<rparr>"

fun call_listeners :: "listener list \<Rightarrow> jsval \<Rightarrow> event list \<times> jsval option" where
  "call_listeners [] v = ([], None)"
| "call_listeners (l # ls) v =
     (case reaction l v of
        Some e \<Rightarrow> ([ListenerCalled (name l) v], Some e)
      | None \<Rightarrow>
          (case call_listeners ls v of (t, x) \<Rightarrow> (ListenerCalled (name l) v # t, x)))"

definition emit :: "listener list \<Rightarrow> jsval \<Rightarrow> event list \<times> jsval option" where
  "emit ls v = (case call_listeners ls v of (t, x) \<Rightarrow> (EmitUpdate v # t, x))"

text \<open>
  \<^verbatim>\<open>
  notifyOfExternalUpdate(value: ValueType): void {
    if (typeof value !== 'undefined' && value !== null && value !== this.lastValue) {
      this.lastValue = value;
      this.emit('update', value);
    }
  }
  \<close>
  The call gives the object afterwards, its effects in order, and the exception it throws,
  if any: the one that \<^verbatim>\<open>emit\<close> lets through, after the store.
\<close>

record 'w update =
  updated :: "'w Value"
  effects :: "event list"
  thrown :: "jsval option"

definition notifyOfExternalUpdate :: "jsval \<Rightarrow> 'w Value \<Rightarrow> 'w update" where
  "notifyOfExternalUpdate v s =
     (if v \<noteq> JUndefined \<and> v \<noteq> JNull \<and> \<not> strict_eq v (lastValue s)
      then (case emit (listeners s) v of
              (t, x) \<Rightarrow> \<lparr>updated = s\<lparr>lastValue := v\<rparr>, effects = Assigned v # t, thrown = x\<rparr>)
      else \<lparr>updated = s, effects = [], thrown = None\<rparr>)"

text \<open>
  The result of \<^verbatim>\<open>set\<close> and \<^verbatim>\<open>get\<close>: what the caller sees, the object and the
  backing system afterwards, and the effects in order. The call is followed to the end of
  its promise chain with no other operation on the object in between.
\<close>

record ('a, 'w) run =
  outcome_of :: "'a completion"
  value_of :: "'w Value"
  world_of :: 'w
  trace_of :: "event list"

text \<open>
  \<^verbatim>\<open>
  set(value: ValueType): Promise<void> {
    return Promise.resolve(
      this.valueForwarder ? this.valueForwarder(value) : undefined
    ).then(() => this.notifyOfExternalUpdate(value));
  }
  \<close>
  An exception of \<^verbatim>\<open>notifyOfExternalUpdate\<close> is thrown inside the callback of
  \<^verbatim>\<open>then\<close>: the promise of \<^verbatim>\<open>set\<close> is rejected with it.
\<close>

definition set_value :: "jsval \<Rightarrow> 'w Value \<Rightarrow> 'w \<Rightarrow> (unit, 'w) run" where
  "set_value v s w =
     (case valueForwarder s of
        None \<Rightarrow>
          \<lparr>outcome_of = then_promise (thrown (notifyOfExternalUpdate v s)) (),
           value_of = updated (notifyOfExternalUpdate v s), world_of = w,
           trace_of = effects (notifyOfExternalUpdate v s)\<rparr>
      | Some forwarder \<Rightarrow>
          (case forwarder v w of
             (Returns u, w') \<Rightarrow>
               \<lparr>outcome_of = then_promise (thrown (notifyOfExternalUpdate v s)) (),
                value_of = updated (notifyOfExternalUpdate v s), world_of = w',
                trace_of = ForwarderCalled v # effects (notifyOfExternalUpdate v s)\<rparr>
           | (Throws e, w') \<Rightarrow>
               \<lparr>outcome_of = Thrown e, value_of = s, world_of = w',
                trace_of = [ForwarderCalled v]\<rparr>
           | (Rejects e, w') \<Rightarrow>
               \<lparr>outcome_of = Rejected e, value_of = s, world_of = w',
                trace_of = [ForwarderCalled v]\<rparr>
           | (Never, w') \<Rightarrow>
               \<lparr>outcome_of = Pending, value_of = s, world_of = w',
                trace_of = [ForwarderCalled v]\<rparr>))"

text \<open>
  \<^verbatim>\<open>
  get(): Promise<ValueType> {
    if (this.valueRequestor) {
      return Promise.resolve(this.valueRequestor()).then((newValue) => {
        this.notifyOfExternalUpdate(newValue);
        return newValue;
      });
    }
    return Promise.resolve(this.lastValue);
  }
  \<close>
\<close>

definition get_value :: "'w Value \<Rightarrow> 'w \<Rightarrow> (jsval, 'w) run" where
  "get_value s w =
     (case valueRequestor s of
        Some requestor \<Rightarrow>
          (case requestor w of
             (Returns newValue, w') \<Rightarrow>
               \<lparr>outcome_of = then_promise (thrown (notifyOfExternalUpdate newValue s)) newValue,
                value_of = updated (notifyOfExternalUpdate newValue s), world_of = w',
                trace_of = RequestorCalled # effects (notifyOfExternalUpdate newValue s)\<rparr>
           | (Throws e, w') \<Rightarrow>
               \<lparr>outcome_of = Thrown e, value_of = s, world_of = w',
                trace_of = [RequestorCalled]\<rparr>
           | (Rejects e, w') \<Rightarrow>
               \<lparr>outcome_of = Rejected e, value_of = s, world_of = w',
                trace_of = [RequestorCalled]\<rparr>
           | (Never, w') \<Rightarrow>
               \<lparr>outcome_of = Pending, value_of = s, world_of = w',
                trace_of = [RequestorCalled]\<rparr>)
      | None \<Rightarrow>
          \<lparr>outcome_of = Fulfilled (lastValue s), value_of = s, world_of = w, trace_of = []\<rparr>)"

section \<open>Reading a trace\<close>

text \<open>The payloads of the change events emitted, and the calls of listeners, in order.\<close>

fun emitted :: "event list \<Rightarrow> jsval list" where
  "emitted [] = []"
| "emitted (EmitUpdate v # t) = v # emitted t"
| "emitted (e # t) = emitted t"

fun notified :: "event list \<Rightarrow> (nat \<times> jsval) list" where
  "notified [] = []"
| "notified (ListenerCalled l v # t) = (l, v) # notified t"
| "notified (e # t) = notified t"

fun assigned :: "event list \<Rightarrow> jsval list" where
  "assigned [] = []"
| "assigned (Assigned v # t) = v # assigned t"
| "assigned (e # t) = assigned t"

section \<open>Sequences of operations\<close>

text \<open>
  The public operations of the class, with the registration of a listener inherited from
  the emitter. A sequence runs one operation after the other, each one to the end of its
  promise chain; the callbacks answer from the state of the backing system, which they may
  change, so their results along a sequence are arbitrary. An operation that fails leaves
  the object as it is at that moment, and the sequence goes on.
\<close>

datatype operation =
    Set jsval
  | Get
  | NotifyOfExternalUpdate jsval
  | On listener

fun apply_operation :: "operation \<Rightarrow> 'w Value \<times> 'w \<Rightarrow> 'w Value \<times> 'w" where
  "apply_operation (Set v) (s, w) = (value_of (set_value v s w), world_of (set_value v s w))"
| "apply_operation Get (s, w) = (value_of (get_value s w), world_of (get_value s w))"
| "apply_operation (NotifyOfExternalUpdate v) (s, w) = (updated (notifyOfExternalUpdate v s), w)"
| "apply_operation (On l) (s, w) = (on l s, w)"

fun apply_operations :: "operation list \<Rightarrow> 'w Value \<times> 'w \<Rightarrow> 'w Value \<times> 'w" where
  "apply_operations [] c = c"
| "apply_operations (x # xs) c = apply_operations xs (apply_operation x c)"

section \<open>Two calls of set\<close>

text \<open>
  \<^verbatim>\<open>set\<close> has one point of suspension, between the argument of
  \<^verbatim>\<open>Promise.resolve\<close> and the callback of \<^verbatim>\<open>then\<close>. Up to that point the call
  runs at once: \<open>set_call\<close> is the call of the forwarder, if there is one, with what it
  answers. From that point the call goes on when the promise of the forwarder is settled:
  \<open>set_then\<close> runs the update procedure on the object as it is at that moment when the
  promise was fulfilled, and does nothing to the object otherwise.
\<close>

definition set_call :: "jsval \<Rightarrow> 'w Value \<Rightarrow> 'w \<Rightarrow> unit outcome \<times> 'w \<times> event list" where
  "set_call v s w =
     (case valueForwarder s of
        None \<Rightarrow> (Returns (), w, [])
      | Some forwarder \<Rightarrow>
          (case forwarder v w of (r, w') \<Rightarrow> (r, w', [ForwarderCalled v])))"

definition set_then :: "jsval \<Rightarrow> unit outcome \<Rightarrow> 'w Value \<Rightarrow> 'w \<Rightarrow> (unit, 'w) run" where
  "set_then v r s w =
     (case r of
        Returns u \<Rightarrow>
          \<lparr>outcome_of = then_promise (thrown (notifyOfExternalUpdate v s)) (),
           value_of = updated (notifyOfExternalUpdate v s), world_of = w,
           trace_of = effects (notifyOfExternalUpdate v s)\<rparr>
      | Throws e \<Rightarrow> \<lparr>outcome_of = Thrown e, value_of = s, world_of = w, trace_of = []\<rparr>
      | Rejects e \<Rightarrow> \<lparr>outcome_of = Rejected e, value_of = s, world_of = w, trace_of = []\<rparr>
      | Never \<Rightarrow> \<lparr>outcome_of = Pending, value_of = s, world_of = w, trace_of = []\<rparr>)"

text \<open>
  Two calls \<open>set(a)\<close> and \<open>set(b)\<close>, in this order. Without overlap the second call is
  made when the first has come to its end. With overlap both calls are made before either
  goes on, so the forwarder is called with \<open>a\<close> and then with \<open>b\<close>; which of the two
  promises of the forwarder is settled first is decided outside the class and is the
  argument \<open>second_first\<close>; the callbacks of \<^verbatim>\<open>then\<close> run in that order.
\<close>

record 'w two_runs =
  first_outcome :: "unit completion"
  second_outcome :: "unit completion"
  value_after :: "'w Value"
  world_after :: 'w
  trace_all :: "event list"

definition sequential_sets :: "jsval \<Rightarrow> jsval \<Rightarrow> 'w Value \<Rightarrow> 'w \<Rightarrow> 'w two_runs" where
  "sequential_sets a b s w =
     (let first = set_value a s w;
          second = set_value b (value_of first) (world_of first)
      in \<lparr>first_outcome = outcome_of first, second_outcome = outcome_of second,
          value_after = value_of second, world_after = world_of second,
          trace_all = trace_of first @ trace_of second\<rparr>)"

definition overlapping_sets ::
    "jsval \<Rightarrow> jsval \<Rightarrow> bool \<Rightarrow> 'w Value \<Rightarrow> 'w \<Rightarrow> 'w two_runs" where
  "overlapping_sets a b second_first s w =
     (case set_call a s w of
        (ra, wa, ta) \<Rightarrow>
          (case set_call b s wa of
             (rb, wb, tb) \<Rightarrow>
               (if second_first
                then (let second = set_then b rb s wb;
                          first = set_then a ra (value_of second) wb
                      in \<lparr>first_outcome = outcome_of first, second_outcome = outcome_of second,
                          value_after = value_of first, world_after = wb,
                          trace_all = ta @ tb @ trace_of second @ trace_of first\<rparr>)
                else (let first = set_then a ra s wb;
                          second = set_then b rb (value_of first) wb
                      in \<lparr>first_outcome = outcome_of first, second_outcome = outcome_of second,
                          value_after = value_of second, world_after = wb,
                          trace_all = ta @ tb @ trace_of first @ trace_of second\<rparr>))))"

section \<open>Callbacks and objects of the scenarios\<close>

text \<open>
  Callbacks for concrete runs: a requestor that answers with a fixed value, one that
  throws, a forwarder whose promise is rejected, and one that writes the value to a backing
  system that is the list of the values pushed so far; a listener that returns, and one
  that throws.
\<close>

definition returning :: "jsval \<Rightarrow> 'w Requestor" where
  "returning y w = (Returns y, w)"

definition throwing :: "jsval \<Rightarrow> 'w Requestor" where
  "throwing e w = (Throws e, w)"

definition rejecting :: "jsval \<Rightarrow> 'w Forwarder" where
  "rejecting e v w = (Rejects e, w)"

definition pushing :: "(jsval list) Forwarder" where
  "pushing v w = (Returns (), w @ [v])"

definition hears :: "nat \<Rightarrow> listener" where
  "hears n = Listener n (\<lambda>v. None)"

definition chokes :: "nat \<Rightarrow> jsval \<Rightarrow> listener" where
  "chokes n e = Listener n (\<lambda>v. Some e)"

text \<open>
  The objects of section 8 of the spec, each with two listeners registered: a level that
  starts at 10 with no callback, a switch that starts at "off" and whose requestor answers
  "on", and variations of them. In the alarmed ones the first listener throws.
\<close>

definition ten :: jsval where
  "ten = JNumber (Finite 10)"

definition twenty :: jsval where
  "twenty = JNumber (Finite 20)"

definition level :: "unit Value" where
  "level = on (hears 2) (on (hears 1) (new_Value ten None None))"

definition switch :: "jsval \<Rightarrow> unit Value" where
  "switch answer =
     on (hears 2) (on (hears 1) (new_Value (JString ''off'') None (Some (returning answer))))"

definition broken_sensor :: "unit Value" where
  "broken_sensor =
     on (hears 2) (on (hears 1) (new_Value ten None (Some (throwing (JString ''timeout'')))))"

definition locked_switch :: "unit Value" where
  "locked_switch =
     on (hears 2) (on (hears 1)
       (new_Value (JString ''off'') (Some (rejecting (JString ''locked''))) None))"

definition lamp :: "(jsval list) Value" where
  "lamp = on (hears 2) (on (hears 1) (new_Value (JString ''off'') (Some pushing) None))"

definition alarmed_level :: "unit Value" where
  "alarmed_level =
     on (hears 2) (on (chokes 1 (JString ''boom'')) (new_Value ten None None))"

definition alarmed_switch :: "unit Value" where
  "alarmed_switch =
     on (hears 2) (on (chokes 1 (JString ''boom''))
       (new_Value (JString ''off'') None (Some (returning (JString ''on'')))))"

section \<open>The update procedure\<close>

lemma strict_eq_same: "strict_eq a b \<Longrightarrow> a = b"
  by (simp add: strict_eq_def split: if_splits)

lemma strict_eq_refl: "a \<noteq> JNumber NaN \<Longrightarrow> strict_eq a a"
  by (simp add: strict_eq_def)

lemma call_listeners_emitted: "emitted (fst (call_listeners ls v)) = []"
  by (induction ls) (auto split: option.splits prod.splits)

lemma call_listeners_assigned: "assigned (fst (call_listeners ls v)) = []"
  by (induction ls) (auto split: option.splits prod.splits)

lemma call_listeners_notified:
  "notified (fst (call_listeners ls v)) =
     map (\<lambda>l. (name l, v))
       (takeWhile (\<lambda>l. reaction l v = None) ls @ take 1 (dropWhile (\<lambda>l. reaction l v = None) ls))"
  by (induction ls) (auto split: option.splits prod.splits)

lemma call_listeners_thrown:
  "snd (call_listeners ls v) =
     (case dropWhile (\<lambda>l. reaction l v = None) ls of [] \<Rightarrow> None | l # rest \<Rightarrow> reaction l v)"
  by (induction ls) (auto split: option.splits prod.splits)

lemma call_listeners_quiet:
  assumes "\<forall>l \<in> set ls. reaction l v = None"
  shows "call_listeners ls v = (map (\<lambda>l. ListenerCalled (name l) v) ls, None)"
  using assms by (induction ls) simp_all

lemma call_listeners_thrown_iff:
  "snd (call_listeners ls v) \<noteq> None \<longleftrightarrow> (\<exists>l \<in> set ls. reaction l v \<noteq> None)"
  by (induction ls) (auto split: option.splits prod.splits)

lemma emit_events: "fst (emit ls v) = EmitUpdate v # fst (call_listeners ls v)"
  by (simp add: emit_def split: prod.splits)

lemma emit_thrown: "snd (emit ls v) = snd (call_listeners ls v)"
  by (simp add: emit_def split: prod.splits)

lemma emitted_emit: "emitted (fst (emit ls v)) = [v]"
  by (simp add: emit_events call_listeners_emitted)

lemma assigned_emit: "assigned (fst (emit ls v)) = []"
  by (simp add: emit_events call_listeners_assigned)

lemma notified_emit: "notified (fst (emit ls v)) = notified (fst (call_listeners ls v))"
  by (simp add: emit_events)

lemma notifyOfExternalUpdate_changed:
  assumes "non_empty v" and "\<not> strict_eq v (lastValue s)"
  shows "notifyOfExternalUpdate v s =
    \<lparr>updated = s\<lparr>lastValue := v\<rparr>, effects = Assigned v # fst (emit (listeners s) v),
     thrown = snd (emit (listeners s) v)\<rparr>"
  using assms by (simp add: notifyOfExternalUpdate_def non_empty_def split: prod.splits)

lemma notifyOfExternalUpdate_unchanged:
  assumes "\<not> (non_empty v \<and> \<not> strict_eq v (lastValue s))"
  shows "notifyOfExternalUpdate v s = \<lparr>updated = s, effects = [], thrown = None\<rparr>"
  using assms by (auto simp add: notifyOfExternalUpdate_def non_empty_def)

lemma then_promise_failed: "failed (then_promise x r) \<longleftrightarrow> x \<noteq> None"
  by (cases x) (simp_all add: then_promise_def)

lemma notifyOfExternalUpdate_thrown:
  "thrown (notifyOfExternalUpdate v s) \<noteq> None \<longleftrightarrow>
     non_empty v \<and> \<not> strict_eq v (lastValue s) \<and> (\<exists>l \<in> set (listeners s). reaction l v \<noteq> None)"
proof (cases "non_empty v \<and> \<not> strict_eq v (lastValue s)")
  case True
  then show ?thesis
    using call_listeners_thrown_iff [of "listeners s" v]
    by (simp add: notifyOfExternalUpdate_changed emit_thrown)
next
  case False
  then have "notifyOfExternalUpdate v s = \<lparr>updated = s, effects = [], thrown = None\<rparr>"
    by (rule notifyOfExternalUpdate_unchanged)
  with False show ?thesis by auto
qed

lemma notifyOfExternalUpdate_thrown_Some:
  "(\<exists>e. thrown (notifyOfExternalUpdate v s) = Some e) \<longleftrightarrow>
     non_empty v \<and> \<not> strict_eq v (lastValue s)
     \<and> (\<exists>l \<in> set (listeners s). \<exists>e. reaction l v = Some e)"
  using notifyOfExternalUpdate_thrown [of v s] by simp

text \<open>
  Claim C1, as the spec has it: whenever the update procedure stores \<open>v\<close>, the change
  notification is delivered to all the registered observers. This is not so when an
  observer raises. The alarmed level is at 10 and has two listeners, of which the first
  throws: an update with 20 is stored and emitted, listener 1 is called and throws, and
  listener 2 is not called.
\<close>

theorem notifyOfExternalUpdate_contract_counterexample:
  "non_empty twenty
   \<and> \<not> strict_eq twenty (lastValue alarmed_level)
   \<and> map name (listeners alarmed_level) = [1, 2]
   \<and> lastValue (updated (notifyOfExternalUpdate twenty alarmed_level)) = twenty
   \<and> emitted (effects (notifyOfExternalUpdate twenty alarmed_level)) = [twenty]
   \<and> notified (effects (notifyOfExternalUpdate twenty alarmed_level)) = [(1, twenty)]
   \<and> thrown (notifyOfExternalUpdate twenty alarmed_level) = Some (JString ''boom'')"
  by (simp add: notifyOfExternalUpdate_def emit_def non_empty_def strict_eq_def twenty_def
      ten_def alarmed_level_def on_def new_Value_def hears_def chokes_def)

text \<open>
  Claim C1, amended. The update procedure, for every object and every candidate value
  \<open>v\<close>: it stores and emits if and only if \<open>v\<close> is neither undefined nor null and is not
  strictly equal to the stored \<open>lastValue\<close>. Then \<open>lastValue\<close> is \<open>v\<close> and nothing
  else of the object changes, one change event carrying \<open>v\<close> is emitted, and inside the
  call the registered listeners are called with \<open>v\<close>, once each, in the order of
  registration, up to and including the first one that raises, whose exception the call
  throws; when no listener raises, all of them are called and the call returns. Otherwise
  the object is as before and nothing at all happens.
\<close>

theorem notifyOfExternalUpdate_contract:
  "(assigned (effects (notifyOfExternalUpdate v s)) \<noteq> []
      \<longleftrightarrow> non_empty v \<and> \<not> strict_eq v (lastValue s))
   \<and> (emitted (effects (notifyOfExternalUpdate v s)) \<noteq> []
      \<longleftrightarrow> non_empty v \<and> \<not> strict_eq v (lastValue s))
   \<and> (non_empty v \<and> \<not> strict_eq v (lastValue s) \<longrightarrow>
        updated (notifyOfExternalUpdate v s) = s\<lparr>lastValue := v\<rparr>
        \<and> lastValue (updated (notifyOfExternalUpdate v s)) = v
        \<and> assigned (effects (notifyOfExternalUpdate v s)) = [v]
        \<and> emitted (effects (notifyOfExternalUpdate v s)) = [v]
        \<and> notified (effects (notifyOfExternalUpdate v s)) =
            map (\<lambda>l. (name l, v))
              (takeWhile (\<lambda>l. reaction l v = None) (listeners s)
               @ take 1 (dropWhile (\<lambda>l. reaction l v = None) (listeners s)))
        \<and> thrown (notifyOfExternalUpdate v s) =
            (case dropWhile (\<lambda>l. reaction l v = None) (listeners s) of
               [] \<Rightarrow> None | l # rest \<Rightarrow> reaction l v)
        \<and> ((\<forall>l \<in> set (listeners s). reaction l v = None) \<longrightarrow>
             notified (effects (notifyOfExternalUpdate v s)) =
               map (\<lambda>l. (name l, v)) (listeners s)
             \<and> thrown (notifyOfExternalUpdate v s) = None))
   \<and> (\<not> (non_empty v \<and> \<not> strict_eq v (lastValue s)) \<longrightarrow>
        updated (notifyOfExternalUpdate v s) = s
        \<and> effects (notifyOfExternalUpdate v s) = []
        \<and> thrown (notifyOfExternalUpdate v s) = None)"
proof (cases "non_empty v \<and> \<not> strict_eq v (lastValue s)")
  case True
  then have run: "notifyOfExternalUpdate v s =
      \<lparr>updated = s\<lparr>lastValue := v\<rparr>, effects = Assigned v # fst (emit (listeners s) v),
       thrown = snd (emit (listeners s) v)\<rparr>"
    by (simp add: notifyOfExternalUpdate_changed)
  have stored: "updated (notifyOfExternalUpdate v s) = s\<lparr>lastValue := v\<rparr>"
    and stores: "assigned (effects (notifyOfExternalUpdate v s)) = [v]"
    and events: "emitted (effects (notifyOfExternalUpdate v s)) = [v]"
    by (simp_all add: run emitted_emit assigned_emit)
  have calls: "notified (effects (notifyOfExternalUpdate v s)) =
      map (\<lambda>l. (name l, v))
        (takeWhile (\<lambda>l. reaction l v = None) (listeners s)
         @ take 1 (dropWhile (\<lambda>l. reaction l v = None) (listeners s)))"
    unfolding run using call_listeners_notified [of "listeners s" v]
    by (simp add: notified_emit)
  have exception: "thrown (notifyOfExternalUpdate v s) =
      (case dropWhile (\<lambda>l. reaction l v = None) (listeners s) of
         [] \<Rightarrow> None | l # rest \<Rightarrow> reaction l v)"
    unfolding run using call_listeners_thrown [of "listeners s" v]
    by (simp add: emit_thrown)
  have quiet: "(\<forall>l \<in> set (listeners s). reaction l v = None) \<longrightarrow>
      notified (effects (notifyOfExternalUpdate v s)) = map (\<lambda>l. (name l, v)) (listeners s)
      \<and> thrown (notifyOfExternalUpdate v s) = None"
  proof
    assume "\<forall>l \<in> set (listeners s). reaction l v = None"
    then have "call_listeners (listeners s) v =
        (map (\<lambda>l. ListenerCalled (name l) v) (listeners s), None)"
      by (rule call_listeners_quiet)
    moreover have "notified (map (\<lambda>l. ListenerCalled (name l) v) ls) = map (\<lambda>l. (name l, v)) ls"
      for ls by (induction ls) simp_all
    ultimately show "notified (effects (notifyOfExternalUpdate v s)) =
        map (\<lambda>l. (name l, v)) (listeners s) \<and> thrown (notifyOfExternalUpdate v s) = None"
      unfolding run by (simp add: notified_emit emit_thrown)
  qed
  have "lastValue (updated (notifyOfExternalUpdate v s)) = v"
    by (simp add: stored)
  with True stored stores events calls exception quiet show ?thesis
    by (intro conjI impI) simp_all
next
  case False
  then have "notifyOfExternalUpdate v s = \<lparr>updated = s, effects = [], thrown = None\<rparr>"
    by (rule notifyOfExternalUpdate_unchanged)
  with False show ?thesis
    by simp
qed

text \<open>
  The level at 10 with its two listeners, which both return: an update with 20 is stored
  and reaches listener 1, then listener 2; an update with 10 and an update with null do
  nothing.
\<close>

theorem notifyOfExternalUpdate_contract_witness:
  "lastValue (updated (notifyOfExternalUpdate twenty level)) = twenty
   \<and> emitted (effects (notifyOfExternalUpdate twenty level)) = [twenty]
   \<and> notified (effects (notifyOfExternalUpdate twenty level)) = [(1, twenty), (2, twenty)]
   \<and> thrown (notifyOfExternalUpdate twenty level) = None
   \<and> notifyOfExternalUpdate ten level = \<lparr>updated = level, effects = [], thrown = None\<rparr>
   \<and> notifyOfExternalUpdate JNull level = \<lparr>updated = level, effects = [], thrown = None\<rparr>"
proof -
  have differs: "non_empty twenty \<and> \<not> strict_eq twenty (lastValue level)"
    by (simp add: non_empty_def strict_eq_def twenty_def ten_def level_def on_def new_Value_def)
  have same: "\<not> (non_empty ten \<and> \<not> strict_eq ten (lastValue level))"
    by (simp add: non_empty_def strict_eq_def ten_def level_def on_def new_Value_def)
  have empty: "\<not> (non_empty JNull \<and> \<not> strict_eq JNull (lastValue level))"
    by (simp add: non_empty_def)
  have registered: "map (\<lambda>l. (name l, twenty)) (listeners level) = [(1, twenty), (2, twenty)]"
    by (simp add: level_def on_def new_Value_def hears_def)
  have quiet: "\<forall>l \<in> set (listeners level). reaction l twenty = None"
    by (simp add: level_def on_def new_Value_def hears_def)
  from differs quiet notifyOfExternalUpdate_contract [of twenty level]
  have "lastValue (updated (notifyOfExternalUpdate twenty level)) = twenty
    \<and> emitted (effects (notifyOfExternalUpdate twenty level)) = [twenty]
    \<and> notified (effects (notifyOfExternalUpdate twenty level)) =
        map (\<lambda>l. (name l, twenty)) (listeners level)
    \<and> thrown (notifyOfExternalUpdate twenty level) = None"
    by blast
  moreover from same notifyOfExternalUpdate_contract [of ten level]
  have "notifyOfExternalUpdate ten level = \<lparr>updated = level, effects = [], thrown = None\<rparr>"
    by simp
  moreover from empty notifyOfExternalUpdate_contract [of JNull level]
  have "notifyOfExternalUpdate JNull level = \<lparr>updated = level, effects = [], thrown = None\<rparr>"
    by simp
  ultimately show ?thesis
    by (simp add: registered)
qed

section \<open>set\<close>

lemma set_value_no_forwarder:
  assumes "valueForwarder s = None"
  shows "set_value v s w =
    \<lparr>outcome_of = then_promise (thrown (notifyOfExternalUpdate v s)) (),
     value_of = updated (notifyOfExternalUpdate v s), world_of = w,
     trace_of = effects (notifyOfExternalUpdate v s)\<rparr>"
  using assms by (simp add: set_value_def)

lemma set_value_returns:
  assumes "valueForwarder s = Some f" and "f v w = (Returns u, w')"
  shows "set_value v s w =
    \<lparr>outcome_of = then_promise (thrown (notifyOfExternalUpdate v s)) (),
     value_of = updated (notifyOfExternalUpdate v s), world_of = w',
     trace_of = ForwarderCalled v # effects (notifyOfExternalUpdate v s)\<rparr>"
  using assms by (simp add: set_value_def)

lemma set_value_throws:
  assumes "valueForwarder s = Some f" and "f v w = (Throws e, w')"
  shows "set_value v s w =
    \<lparr>outcome_of = Thrown e, value_of = s, world_of = w', trace_of = [ForwarderCalled v]\<rparr>"
  using assms by (simp add: set_value_def)

lemma set_value_rejects:
  assumes "valueForwarder s = Some f" and "f v w = (Rejects e, w')"
  shows "set_value v s w =
    \<lparr>outcome_of = Rejected e, value_of = s, world_of = w', trace_of = [ForwarderCalled v]\<rparr>"
  using assms by (simp add: set_value_def)

lemma set_value_never:
  assumes "valueForwarder s = Some f" and "f v w = (Never, w')"
  shows "set_value v s w =
    \<lparr>outcome_of = Pending, value_of = s, world_of = w', trace_of = [ForwarderCalled v]\<rparr>"
  using assms by (simp add: set_value_def)

lemma set_value_failed:
  "failed (outcome_of (set_value v s w)) \<longleftrightarrow>
     (case valueForwarder s of None \<Rightarrow> False | Some f \<Rightarrow> raises (fst (f v w)))
     \<or> (case valueForwarder s of None \<Rightarrow> True | Some f \<Rightarrow> fst (f v w) = Returns ())
       \<and> thrown (notifyOfExternalUpdate v s) \<noteq> None"
proof (cases "valueForwarder s")
  case None
  then show ?thesis by (simp add: set_value_no_forwarder then_promise_failed)
next
  case (Some f)
  obtain r w' where call: "f v w = (r, w')" by (cases "f v w")
  show ?thesis
  proof (cases r)
    case (Returns u)
    with Some call show ?thesis by (simp add: set_value_returns then_promise_failed)
  next
    case (Throws e)
    with Some call show ?thesis by (simp add: set_value_throws)
  next
    case (Rejects e)
    with Some call show ?thesis by (simp add: set_value_rejects)
  next
    case Never
    with Some call show ?thesis by (simp add: set_value_never)
  qed
qed

lemma set_value_forwarder_raised:
  assumes "valueForwarder s = Some f" and "raises (fst (f v w))"
  shows "value_of (set_value v s w) = s \<and> trace_of (set_value v s w) = [ForwarderCalled v]"
proof -
  obtain r w' where call: "f v w = (r, w')" by (cases "f v w")
  from assms call show ?thesis
    by (cases r) (simp_all add: set_value_throws set_value_rejects)
qed

text \<open>
  Claim C2, as the spec has it: \<open>set(v)\<close> fails only when the forwarder raises, so with
  no forwarder it always succeeds, and a failed \<open>set(v)\<close> has stored and emitted nothing.
  This is not so when an observer raises. The alarmed level has no forwarder and a first
  listener that throws: \<open>set(20)\<close> is rejected with the exception of the listener, after
  20 was stored and the change event emitted.
\<close>

theorem set_fails_counterexample:
  "valueForwarder alarmed_level = None
   \<and> outcome_of (set_value twenty alarmed_level ()) = Rejected (JString ''boom'')
   \<and> failed (outcome_of (set_value twenty alarmed_level ()))
   \<and> lastValue alarmed_level = ten
   \<and> lastValue (value_of (set_value twenty alarmed_level ())) = twenty
   \<and> emitted (trace_of (set_value twenty alarmed_level ())) = [twenty]"
  by (simp add: set_value_def then_promise_def notifyOfExternalUpdate_def emit_def
      strict_eq_def twenty_def ten_def alarmed_level_def on_def new_Value_def hears_def
      chokes_def)

text \<open>
  Claim C2, amended. For every object and every value \<open>v\<close>, \<open>set(v)\<close> fails (its
  promise is rejected, or the call throws) if and only if a forwarder is configured and
  the call of the forwarder with \<open>v\<close> raises (it throws, or its promise is rejected), or
  the update takes place (no forwarder or a forwarder that succeeds, \<open>v\<close> neither
  undefined nor null and not strictly equal to \<open>lastValue\<close>) and a listener raises on
  \<open>v\<close>. So with no forwarder and no listener that raises, \<open>set(v)\<close> is fulfilled. When
  \<open>set(v)\<close> fails because the forwarder raised, the object is as before, in particular
  \<open>lastValue\<close>; nothing is stored, no change event is emitted and no listener is called.
\<close>

theorem set_fails_iff_callback_raises:
  "(failed (outcome_of (set_value v s w)) \<longleftrightarrow>
      (case valueForwarder s of None \<Rightarrow> False | Some f \<Rightarrow> raises (fst (f v w)))
      \<or> (case valueForwarder s of None \<Rightarrow> True | Some f \<Rightarrow> fst (f v w) = Returns ())
        \<and> non_empty v \<and> \<not> strict_eq v (lastValue s)
        \<and> (\<exists>l \<in> set (listeners s). reaction l v \<noteq> None))
   \<and> (valueForwarder s = None \<and> (\<forall>l \<in> set (listeners s). reaction l v = None) \<longrightarrow>
        outcome_of (set_value v s w) = Fulfilled ())
   \<and> ((case valueForwarder s of None \<Rightarrow> False | Some f \<Rightarrow> raises (fst (f v w))) \<longrightarrow>
        failed (outcome_of (set_value v s w))
        \<and> value_of (set_value v s w) = s
        \<and> lastValue (value_of (set_value v s w)) = lastValue s
        \<and> assigned (trace_of (set_value v s w)) = []
        \<and> emitted (trace_of (set_value v s w)) = []
        \<and> notified (trace_of (set_value v s w)) = [])"
proof -
  have iff: "failed (outcome_of (set_value v s w)) \<longleftrightarrow>
      (case valueForwarder s of None \<Rightarrow> False | Some f \<Rightarrow> raises (fst (f v w)))
      \<or> (case valueForwarder s of None \<Rightarrow> True | Some f \<Rightarrow> fst (f v w) = Returns ())
        \<and> non_empty v \<and> \<not> strict_eq v (lastValue s)
        \<and> (\<exists>l \<in> set (listeners s). reaction l v \<noteq> None)"
    using set_value_failed [of v s w] notifyOfExternalUpdate_thrown [of v s] by blast
  have quiet: "valueForwarder s = None \<and> (\<forall>l \<in> set (listeners s). reaction l v = None) \<longrightarrow>
      outcome_of (set_value v s w) = Fulfilled ()"
  proof
    assume a: "valueForwarder s = None \<and> (\<forall>l \<in> set (listeners s). reaction l v = None)"
    then have "thrown (notifyOfExternalUpdate v s) = None"
      using notifyOfExternalUpdate_thrown [of v s] by auto
    with a show "outcome_of (set_value v s w) = Fulfilled ()"
      by (simp add: set_value_no_forwarder then_promise_def)
  qed
  have raised: "(case valueForwarder s of None \<Rightarrow> False | Some f \<Rightarrow> raises (fst (f v w))) \<longrightarrow>
        failed (outcome_of (set_value v s w))
        \<and> value_of (set_value v s w) = s
        \<and> lastValue (value_of (set_value v s w)) = lastValue s
        \<and> assigned (trace_of (set_value v s w)) = []
        \<and> emitted (trace_of (set_value v s w)) = []
        \<and> notified (trace_of (set_value v s w)) = []"
  proof
    assume a: "case valueForwarder s of None \<Rightarrow> False | Some f \<Rightarrow> raises (fst (f v w))"
    then obtain f where f: "valueForwarder s = Some f" and r: "raises (fst (f v w))"
      by (cases "valueForwarder s") simp_all
    from a iff have "failed (outcome_of (set_value v s w))" by blast
    with set_value_forwarder_raised [OF f r]
    show "failed (outcome_of (set_value v s w))
        \<and> value_of (set_value v s w) = s
        \<and> lastValue (value_of (set_value v s w)) = lastValue s
        \<and> assigned (trace_of (set_value v s w)) = []
        \<and> emitted (trace_of (set_value v s w)) = []
        \<and> notified (trace_of (set_value v s w)) = []"
      by simp
  qed
  from iff quiet raised show ?thesis
    by (intro conjI)
qed

text \<open>
  The locked switch refuses "on": the promise of \<open>set\<close> is rejected with the error of the
  forwarder and the switch is still "off". The level has no forwarder and its listeners
  return: \<open>set(20)\<close> is fulfilled.
\<close>

theorem set_fails_iff_callback_raises_witness:
  "outcome_of (set_value (JString ''on'') locked_switch ()) = Rejected (JString ''locked'')
   \<and> lastValue (value_of (set_value (JString ''on'') locked_switch ())) = JString ''off''
   \<and> emitted (trace_of (set_value (JString ''on'') locked_switch ())) = []
   \<and> valueForwarder level = None
   \<and> outcome_of (set_value twenty level ()) = Fulfilled ()"
proof -
  have rejected: "outcome_of (set_value (JString ''on'') locked_switch ()) = Rejected (JString ''locked'')"
    by (simp add: set_value_def locked_switch_def on_def new_Value_def rejecting_def)
  have raised: "case valueForwarder locked_switch of None \<Rightarrow> False
      | Some f \<Rightarrow> raises (fst (f (JString ''on'') ()))"
    by (simp add: locked_switch_def on_def new_Value_def rejecting_def)
  have off: "lastValue locked_switch = JString ''off''"
    by (simp add: locked_switch_def on_def new_Value_def)
  have none: "valueForwarder level = None \<and> (\<forall>l \<in> set (listeners level). reaction l twenty = None)"
    by (simp add: level_def on_def new_Value_def hears_def)
  from raised set_fails_iff_callback_raises [of "JString ''on''" locked_switch "()"]
  have "lastValue (value_of (set_value (JString ''on'') locked_switch ())) = lastValue locked_switch
    \<and> emitted (trace_of (set_value (JString ''on'') locked_switch ())) = []"
    by blast
  moreover from none set_fails_iff_callback_raises [of twenty level "()"]
  have "outcome_of (set_value twenty level ()) = Fulfilled ()"
    by blast
  ultimately show ?thesis
    using rejected off none by simp
qed

lemma set_value_with_forwarder:
  assumes "valueForwarder s = Some f"
  shows "value_of (set_value z s w) =
    (if fst (f z w) = Returns () then updated (notifyOfExternalUpdate z s) else s)"
proof -
  obtain r w' where call: "f z w = (r, w')" by (cases "f z w")
  from assms call show ?thesis
    by (cases r)
      (simp_all add: set_value_returns set_value_throws set_value_rejects set_value_never)
qed

text \<open>
  Claim C8. For every object with a forwarder and every value \<open>z\<close>, \<open>set(z)\<close> calls the
  forwarder with \<open>z\<close> first and once, and leaves the backing system as the forwarder
  left it. Whatever is stored, emitted or delivered comes after that call, and only when
  the forwarder has returned or its promise was fulfilled: the effects that follow the
  call are those of the update procedure with \<open>z\<close> in that case and none otherwise. For
  \<open>z\<close> neither undefined nor null and not strictly equal to \<open>lastValue\<close>, the order is:
  the call of the forwarder with \<open>z\<close>, the store of \<open>z\<close>, the change event, the
  listeners.
\<close>

theorem set_forwards_then_commits:
  assumes "valueForwarder s = Some f"
  shows "trace_of (set_value z s w) =
           ForwarderCalled z #
             (if fst (f z w) = Returns () then effects (notifyOfExternalUpdate z s) else [])
         \<and> value_of (set_value z s w) =
             (if fst (f z w) = Returns () then updated (notifyOfExternalUpdate z s) else s)
         \<and> world_of (set_value z s w) = snd (f z w)
         \<and> (fst (f z w) = Returns () \<and> non_empty z \<and> \<not> strict_eq z (lastValue s) \<longrightarrow>
              trace_of (set_value z s w) =
                ForwarderCalled z # Assigned z # fst (emit (listeners s) z)
              \<and> lastValue (value_of (set_value z s w)) = z)"
proof -
  obtain r w' where call: "f z w = (r, w')" by (cases "f z w")
  show ?thesis
  proof (cases r)
    case (Returns u)
    with assms call show ?thesis
      by (simp add: set_value_returns notifyOfExternalUpdate_changed)
  next
    case (Throws e)
    with assms call show ?thesis by (simp add: set_value_throws)
  next
    case (Rejects e)
    with assms call show ?thesis by (simp add: set_value_rejects)
  next
    case Never
    with assms call show ?thesis by (simp add: set_value_never)
  qed
qed

text \<open>
  The lamp is "off" and nothing has been pushed to it. \<open>set("on")\<close> pushes "on" to the
  lamp, then stores it, then tells the two listeners.
\<close>

theorem set_forwards_then_commits_witness:
  "valueForwarder lamp = Some pushing
   \<and> trace_of (set_value (JString ''on'') lamp []) =
       [ForwarderCalled (JString ''on''), Assigned (JString ''on''), EmitUpdate (JString ''on''),
        ListenerCalled 1 (JString ''on''), ListenerCalled 2 (JString ''on'')]
   \<and> world_of (set_value (JString ''on'') lamp []) = [JString ''on'']
   \<and> lastValue (value_of (set_value (JString ''on'') lamp [])) = JString ''on''"
proof -
  have forwarder: "valueForwarder lamp = Some pushing"
    by (simp add: lamp_def on_def new_Value_def)
  have differs: "fst (pushing (JString ''on'') []) = Returns () \<and> non_empty (JString ''on'')
      \<and> \<not> strict_eq (JString ''on'') (lastValue lamp)"
    by (simp add: pushing_def non_empty_def strict_eq_def lamp_def on_def new_Value_def)
  have registered: "fst (emit (listeners lamp) (JString ''on'')) =
      [EmitUpdate (JString ''on''), ListenerCalled 1 (JString ''on''),
       ListenerCalled 2 (JString ''on'')]"
    by (simp add: lamp_def on_def new_Value_def emit_def hears_def)
  from differs set_forwards_then_commits [OF forwarder, of "JString ''on''" "[]"]
  have "trace_of (set_value (JString ''on'') lamp []) =
          ForwarderCalled (JString ''on'') # Assigned (JString ''on'')
            # fst (emit (listeners lamp) (JString ''on''))
      \<and> world_of (set_value (JString ''on'') lamp []) = snd (pushing (JString ''on'') [])
      \<and> lastValue (value_of (set_value (JString ''on'') lamp [])) = JString ''on''"
    by blast
  then show ?thesis
    using forwarder by (simp add: registered pushing_def)
qed

section \<open>get\<close>

lemma get_value_no_requestor:
  assumes "valueRequestor s = None"
  shows "get_value s w =
    \<lparr>outcome_of = Fulfilled (lastValue s), value_of = s, world_of = w, trace_of = []\<rparr>"
  using assms by (simp add: get_value_def)

lemma get_value_returns:
  assumes "valueRequestor s = Some r" and "r w = (Returns y, w')"
  shows "get_value s w =
    \<lparr>outcome_of = then_promise (thrown (notifyOfExternalUpdate y s)) y,
     value_of = updated (notifyOfExternalUpdate y s), world_of = w',
     trace_of = RequestorCalled # effects (notifyOfExternalUpdate y s)\<rparr>"
  using assms by (simp add: get_value_def)

lemma get_value_throws:
  assumes "valueRequestor s = Some r" and "r w = (Throws e, w')"
  shows "get_value s w =
    \<lparr>outcome_of = Thrown e, value_of = s, world_of = w', trace_of = [RequestorCalled]\<rparr>"
  using assms by (simp add: get_value_def)

lemma get_value_rejects:
  assumes "valueRequestor s = Some r" and "r w = (Rejects e, w')"
  shows "get_value s w =
    \<lparr>outcome_of = Rejected e, value_of = s, world_of = w', trace_of = [RequestorCalled]\<rparr>"
  using assms by (simp add: get_value_def)

lemma get_value_never:
  assumes "valueRequestor s = Some r" and "r w = (Never, w')"
  shows "get_value s w =
    \<lparr>outcome_of = Pending, value_of = s, world_of = w', trace_of = [RequestorCalled]\<rparr>"
  using assms by (simp add: get_value_def)

lemma get_value_failed:
  "failed (outcome_of (get_value s w)) \<longleftrightarrow>
     (case valueRequestor s of
        None \<Rightarrow> False
      | Some r \<Rightarrow>
          raises (fst (r w))
          \<or> (case fst (r w) of
                Returns y \<Rightarrow> thrown (notifyOfExternalUpdate y s) \<noteq> None
              | Throws e \<Rightarrow> False | Rejects e \<Rightarrow> False | Never \<Rightarrow> False))"
proof (cases "valueRequestor s")
  case None
  then show ?thesis by (simp add: get_value_no_requestor)
next
  case (Some r)
  obtain x w' where call: "r w = (x, w')" by (cases "r w")
  show ?thesis
  proof (cases x)
    case (Returns y)
    with Some call show ?thesis by (simp add: get_value_returns then_promise_failed)
  next
    case (Throws e)
    with Some call show ?thesis by (simp add: get_value_throws)
  next
    case (Rejects e)
    with Some call show ?thesis by (simp add: get_value_rejects)
  next
    case Never
    with Some call show ?thesis by (simp add: get_value_never)
  qed
qed

lemma get_value_requestor_raised:
  assumes "valueRequestor s = Some r" and "raises (fst (r w))"
  shows "value_of (get_value s w) = s \<and> trace_of (get_value s w) = [RequestorCalled]"
proof -
  obtain x w' where call: "r w = (x, w')" by (cases "r w")
  from assms call show ?thesis
    by (cases x) (simp_all add: get_value_throws get_value_rejects)
qed

text \<open>
  Claim C5. For every object with no requestor, \<open>get()\<close> is fulfilled with the current
  \<open>lastValue\<close> and has no effect: the object (\<open>lastValue\<close>, forwarder, requestor and
  listeners) and the backing system are as before, no callback is called, nothing is
  stored, and no event is emitted.
\<close>

theorem get_without_requestor_is_pure:
  assumes "valueRequestor s = None"
  shows "outcome_of (get_value s w) = Fulfilled (lastValue s)
         \<and> value_of (get_value s w) = s
         \<and> world_of (get_value s w) = w
         \<and> trace_of (get_value s w) = []"
  using assms by (simp add: get_value_no_requestor)

text \<open>The level has no requestor: \<open>get()\<close> gives 10 and the level is as before.\<close>

theorem get_without_requestor_is_pure_witness:
  "valueRequestor level = None
   \<and> outcome_of (get_value level ()) = Fulfilled ten
   \<and> value_of (get_value level ()) = level
   \<and> trace_of (get_value level ()) = []"
proof -
  have none: "valueRequestor level = None"
    by (simp add: level_def on_def new_Value_def)
  have "lastValue level = ten"
    by (simp add: level_def on_def new_Value_def)
  with none get_without_requestor_is_pure [OF none, of "()"] show ?thesis
    by simp
qed

text \<open>
  Claim C7, as the spec has it: \<open>get()\<close> fails only when the requestor raises, and a
  failed \<open>get()\<close> has stored nothing and notified nobody. This is not so when an
  observer raises. The alarmed switch is "off", its requestor answers "on" and its first
  listener throws: \<open>get()\<close> is rejected with the exception of the listener although the
  requestor returned, after "on" was stored and listener 1 called.
\<close>

theorem get_fails_counterexample:
  "valueRequestor alarmed_switch = Some (returning (JString ''on''))
   \<and> \<not> raises (fst (returning (JString ''on'') ()))
   \<and> outcome_of (get_value alarmed_switch ()) = Rejected (JString ''boom'')
   \<and> failed (outcome_of (get_value alarmed_switch ()))
   \<and> lastValue alarmed_switch = JString ''off''
   \<and> lastValue (value_of (get_value alarmed_switch ())) = JString ''on''
   \<and> notified (trace_of (get_value alarmed_switch ())) = [(1, JString ''on'')]"
  by (simp add: get_value_def then_promise_def notifyOfExternalUpdate_def emit_def
      strict_eq_def alarmed_switch_def on_def new_Value_def hears_def chokes_def
      returning_def)

text \<open>
  Claim C7, amended. For every object, \<open>get()\<close> fails (its promise is rejected, or the
  call throws) if and only if a requestor is configured and either its call raises, or it
  returns a value \<open>y\<close> with which the update takes place (\<open>y\<close> neither undefined nor
  null and not strictly equal to \<open>lastValue\<close>) and a listener raises on \<open>y\<close>. When
  \<open>get()\<close> fails because the requestor raised, the object is as before, in particular
  \<open>lastValue\<close>; nothing is stored, no change event is emitted and no listener is called.
\<close>

theorem get_fails_iff_callback_raises:
  "(failed (outcome_of (get_value s w)) \<longleftrightarrow>
      (case valueRequestor s of
         None \<Rightarrow> False
       | Some r \<Rightarrow>
           raises (fst (r w))
           \<or> (case fst (r w) of
                 Returns y \<Rightarrow>
                   non_empty y \<and> \<not> strict_eq y (lastValue s)
                   \<and> (\<exists>l \<in> set (listeners s). reaction l y \<noteq> None)
               | Throws e \<Rightarrow> False | Rejects e \<Rightarrow> False | Never \<Rightarrow> False)))
   \<and> ((case valueRequestor s of None \<Rightarrow> False | Some r \<Rightarrow> raises (fst (r w))) \<longrightarrow>
        failed (outcome_of (get_value s w))
        \<and> value_of (get_value s w) = s
        \<and> lastValue (value_of (get_value s w)) = lastValue s
        \<and> assigned (trace_of (get_value s w)) = []
        \<and> emitted (trace_of (get_value s w)) = []
        \<and> notified (trace_of (get_value s w)) = [])"
proof -
  have iff: "failed (outcome_of (get_value s w)) \<longleftrightarrow>
      (case valueRequestor s of
         None \<Rightarrow> False
       | Some r \<Rightarrow>
           raises (fst (r w))
           \<or> (case fst (r w) of
                 Returns y \<Rightarrow>
                   non_empty y \<and> \<not> strict_eq y (lastValue s)
                   \<and> (\<exists>l \<in> set (listeners s). reaction l y \<noteq> None)
               | Throws e \<Rightarrow> False | Rejects e \<Rightarrow> False | Never \<Rightarrow> False))"
    unfolding get_value_failed [of s w]
    by (simp add: notifyOfExternalUpdate_thrown_Some split: option.splits outcome.splits)
  have raised: "(case valueRequestor s of None \<Rightarrow> False | Some r \<Rightarrow> raises (fst (r w))) \<longrightarrow>
        failed (outcome_of (get_value s w))
        \<and> value_of (get_value s w) = s
        \<and> lastValue (value_of (get_value s w)) = lastValue s
        \<and> assigned (trace_of (get_value s w)) = []
        \<and> emitted (trace_of (get_value s w)) = []
        \<and> notified (trace_of (get_value s w)) = []"
  proof
    assume a: "case valueRequestor s of None \<Rightarrow> False | Some r \<Rightarrow> raises (fst (r w))"
    then obtain r where r: "valueRequestor s = Some r" and x: "raises (fst (r w))"
      by (cases "valueRequestor s") simp_all
    from r x have "failed (outcome_of (get_value s w))"
      by (simp add: get_value_failed)
    with get_value_requestor_raised [OF r x]
    show "failed (outcome_of (get_value s w))
        \<and> value_of (get_value s w) = s
        \<and> lastValue (value_of (get_value s w)) = lastValue s
        \<and> assigned (trace_of (get_value s w)) = []
        \<and> emitted (trace_of (get_value s w)) = []
        \<and> notified (trace_of (get_value s w)) = []"
      by simp
  qed
  from iff raised show ?thesis
    by (intro conjI)
qed

text \<open>
  The requestor of the broken sensor throws: so does \<open>get()\<close>, with the same error, and
  the sensor still holds 10 and has told nobody.
\<close>

theorem get_fails_iff_callback_raises_witness:
  "outcome_of (get_value broken_sensor ()) = Thrown (JString ''timeout'')
   \<and> failed (outcome_of (get_value broken_sensor ()))
   \<and> lastValue (value_of (get_value broken_sensor ())) = ten
   \<and> notified (trace_of (get_value broken_sensor ())) = []"
proof -
  have thrown: "outcome_of (get_value broken_sensor ()) = Thrown (JString ''timeout'')"
    by (simp add: get_value_def broken_sensor_def on_def new_Value_def throwing_def)
  have raised: "case valueRequestor broken_sensor of None \<Rightarrow> False
      | Some r \<Rightarrow> raises (fst (r ()))"
    by (simp add: broken_sensor_def on_def new_Value_def throwing_def)
  have held: "lastValue broken_sensor = ten"
    by (simp add: broken_sensor_def on_def new_Value_def)
  from raised get_fails_iff_callback_raises [of broken_sensor "()"]
  have "failed (outcome_of (get_value broken_sensor ()))
    \<and> lastValue (value_of (get_value broken_sensor ())) = lastValue broken_sensor
    \<and> notified (trace_of (get_value broken_sensor ())) = []"
    by blast
  then show ?thesis
    using thrown held by simp
qed

text \<open>
  Claim C3, as the spec has it: whenever the requestor returns a value \<open>y\<close> other than
  \<open>lastValue\<close>, \<open>get()\<close> returns \<open>y\<close>, stores it and emits one change event with it.
  This is not so for an empty \<open>y\<close>: the switch is "off" and its requestor answers null;
  \<open>get()\<close> is fulfilled with null, but the switch is still "off" and no event is emitted.
  Nor does \<open>get()\<close> return \<open>y\<close> when an observer raises: the requestor of the alarmed
  switch answers "on" and its first listener throws; "on" is stored and emitted, and
  \<open>get()\<close> is rejected.
\<close>

theorem get_reflects_pull_counterexample:
  "valueRequestor (switch JNull) = Some (returning JNull)
   \<and> fst (returning JNull ()) = Returns JNull
   \<and> JNull \<noteq> lastValue (switch JNull)
   \<and> outcome_of (get_value (switch JNull) ()) = Fulfilled JNull
   \<and> lastValue (value_of (get_value (switch JNull) ())) = JString ''off''
   \<and> lastValue (value_of (get_value (switch JNull) ())) \<noteq> JNull
   \<and> emitted (trace_of (get_value (switch JNull) ())) = []
   \<and> valueRequestor alarmed_switch = Some (returning (JString ''on''))
   \<and> JString ''on'' \<noteq> lastValue alarmed_switch
   \<and> outcome_of (get_value alarmed_switch ()) \<noteq> Fulfilled (JString ''on'')"
  by (simp add: get_value_def then_promise_def notifyOfExternalUpdate_def emit_def
      strict_eq_def switch_def alarmed_switch_def on_def new_Value_def hears_def chokes_def
      returning_def)

text \<open>
  Claim C3, amended. For every object with a requestor: if the requestor returns a value
  \<open>y\<close> that is neither undefined nor null and is not strictly equal to \<open>lastValue\<close>, then
  \<open>lastValue\<close> is \<open>y\<close> afterwards and exactly one change event is emitted, carrying
  \<open>y\<close>; when no listener raises on \<open>y\<close>, every listener receives \<open>y\<close> and \<open>get()\<close> is
  fulfilled with \<open>y\<close>; when a listener raises, \<open>get()\<close> fails.
\<close>

theorem get_reflects_pull:
  assumes "valueRequestor s = Some r" and "fst (r w) = Returns y"
    and "non_empty y" and "\<not> strict_eq y (lastValue s)"
  shows "lastValue (value_of (get_value s w)) = y
         \<and> value_of (get_value s w) = s\<lparr>lastValue := y\<rparr>
         \<and> emitted (trace_of (get_value s w)) = [y]
         \<and> ((\<forall>l \<in> set (listeners s). reaction l y = None) \<longrightarrow>
              outcome_of (get_value s w) = Fulfilled y
              \<and> notified (trace_of (get_value s w)) = map (\<lambda>l. (name l, y)) (listeners s))
         \<and> ((\<exists>l \<in> set (listeners s). reaction l y \<noteq> None) \<longrightarrow>
              failed (outcome_of (get_value s w)))"
proof -
  obtain w' where call: "r w = (Returns y, w')"
    using assms(2) by (cases "r w") simp
  have run: "get_value s w =
      \<lparr>outcome_of = then_promise (thrown (notifyOfExternalUpdate y s)) y,
       value_of = updated (notifyOfExternalUpdate y s), world_of = w',
       trace_of = RequestorCalled # effects (notifyOfExternalUpdate y s)\<rparr>"
    using assms(1) call by (rule get_value_returns)
  have update: "notifyOfExternalUpdate y s =
      \<lparr>updated = s\<lparr>lastValue := y\<rparr>, effects = Assigned y # fst (emit (listeners s) y),
       thrown = snd (emit (listeners s) y)\<rparr>"
    using assms(3,4) by (rule notifyOfExternalUpdate_changed)
  have stored: "value_of (get_value s w) = s\<lparr>lastValue := y\<rparr>"
    and events: "emitted (trace_of (get_value s w)) = [y]"
    by (simp_all add: run update emitted_emit)
  have quiet: "(\<forall>l \<in> set (listeners s). reaction l y = None) \<longrightarrow>
      outcome_of (get_value s w) = Fulfilled y
      \<and> notified (trace_of (get_value s w)) = map (\<lambda>l. (name l, y)) (listeners s)"
  proof
    assume "\<forall>l \<in> set (listeners s). reaction l y = None"
    then have "call_listeners (listeners s) y =
        (map (\<lambda>l. ListenerCalled (name l) y) (listeners s), None)"
      by (rule call_listeners_quiet)
    moreover have "notified (map (\<lambda>l. ListenerCalled (name l) y) ls) = map (\<lambda>l. (name l, y)) ls"
      for ls by (induction ls) simp_all
    ultimately show "outcome_of (get_value s w) = Fulfilled y
        \<and> notified (trace_of (get_value s w)) = map (\<lambda>l. (name l, y)) (listeners s)"
      by (simp add: run update notified_emit emit_thrown then_promise_def)
  qed
  have loud: "(\<exists>l \<in> set (listeners s). reaction l y \<noteq> None) \<longrightarrow>
      failed (outcome_of (get_value s w))"
    using call_listeners_thrown_iff [of "listeners s" y]
    by (simp add: run update emit_thrown then_promise_failed)
  have "lastValue (value_of (get_value s w)) = y"
    by (simp add: stored)
  with stored events quiet loud show ?thesis
    by (intro conjI)
qed

text \<open>
  The scenario of the spec: the switch is "off", its requestor answers "on" and its
  listeners return. \<open>get()\<close> gives "on" and one change event with "on" is emitted.
  The alarmed switch, whose first listener throws, holds "on" as well, and its \<open>get()\<close>
  fails.
\<close>

theorem get_reflects_pull_witness:
  "valueRequestor (switch (JString ''on'')) = Some (returning (JString ''on''))
   \<and> non_empty (JString ''on'')
   \<and> \<not> strict_eq (JString ''on'') (lastValue (switch (JString ''on'')))
   \<and> outcome_of (get_value (switch (JString ''on'')) ()) = Fulfilled (JString ''on'')
   \<and> lastValue (value_of (get_value (switch (JString ''on'')) ())) = JString ''on''
   \<and> emitted (trace_of (get_value (switch (JString ''on'')) ())) = [JString ''on'']
   \<and> notified (trace_of (get_value (switch (JString ''on'')) ())) =
       [(1, JString ''on''), (2, JString ''on'')]
   \<and> lastValue (value_of (get_value alarmed_switch ())) = JString ''on''
   \<and> failed (outcome_of (get_value alarmed_switch ()))"
proof -
  have alarmed: "valueRequestor alarmed_switch = Some (returning (JString ''on''))"
    by (simp add: alarmed_switch_def on_def new_Value_def)
  have alarmed_differs: "\<not> strict_eq (JString ''on'') (lastValue alarmed_switch)"
    by (simp add: strict_eq_def alarmed_switch_def on_def new_Value_def)
  have loud: "\<exists>l \<in> set (listeners alarmed_switch). reaction l (JString ''on'') \<noteq> None"
    by (simp add: alarmed_switch_def on_def new_Value_def hears_def chokes_def)
  have requestor: "valueRequestor (switch (JString ''on'')) = Some (returning (JString ''on''))"
    by (simp add: switch_def on_def new_Value_def)
  have answer: "fst (returning (JString ''on'') ()) = Returns (JString ''on'')"
    by (simp add: returning_def)
  have filled: "non_empty (JString ''on'')"
    by (simp add: non_empty_def)
  have differs: "\<not> strict_eq (JString ''on'') (lastValue (switch (JString ''on'')))"
    by (simp add: strict_eq_def switch_def on_def new_Value_def)
  have quiet: "\<forall>l \<in> set (listeners (switch (JString ''on''))). reaction l (JString ''on'') = None"
    by (simp add: switch_def on_def new_Value_def hears_def)
  have registered: "map (\<lambda>l. (name l, JString ''on'')) (listeners (switch (JString ''on''))) =
      [(1, JString ''on''), (2, JString ''on'')]"
    by (simp add: switch_def on_def new_Value_def hears_def)
  from quiet get_reflects_pull [OF requestor answer filled differs]
  have "lastValue (value_of (get_value (switch (JString ''on'')) ())) = JString ''on''
    \<and> emitted (trace_of (get_value (switch (JString ''on'')) ())) = [JString ''on'']
    \<and> outcome_of (get_value (switch (JString ''on'')) ()) = Fulfilled (JString ''on'')
    \<and> notified (trace_of (get_value (switch (JString ''on'')) ())) =
        map (\<lambda>l. (name l, JString ''on'')) (listeners (switch (JString ''on'')))"
    by blast
  moreover from loud get_reflects_pull [OF alarmed answer filled alarmed_differs]
  have "lastValue (value_of (get_value alarmed_switch ())) = JString ''on''
    \<and> failed (outcome_of (get_value alarmed_switch ()))"
    by blast
  ultimately show ?thesis
    using requestor filled differs by (simp add: registered)
qed

text \<open>
  Claim C6. The value a successful \<open>get()\<close> resolves with is the \<open>lastValue\<close> stored
  right after the call: so says the comment of \<open>get\<close>, "Return the last known value from
  the underlying thing", and so does the path without a requestor, which returns
  \<^verbatim>\<open>this.lastValue\<close>. The path with a requestor returns \<^verbatim>\<open>newValue\<close> instead, which
  the update procedure may have refused to store. The switch is "off" and its requestor
  answers undefined: \<open>get()\<close> is fulfilled with undefined while the switch holds "off".
\<close>

theorem get_resolves_with_unstored_value:
  "valueRequestor (switch JUndefined) = Some (returning JUndefined)
   \<and> outcome_of (get_value (switch JUndefined) ()) = Fulfilled JUndefined
   \<and> lastValue (value_of (get_value (switch JUndefined) ())) = JString ''off''
   \<and> lastValue (value_of (get_value (switch JUndefined) ())) \<noteq> JUndefined"
  by (simp add: get_value_def then_promise_def notifyOfExternalUpdate_def switch_def on_def
      new_Value_def returning_def)

section \<open>Deduplication\<close>

lemma notifyOfExternalUpdate_emitted:
  "emitted (effects (notifyOfExternalUpdate v s)) =
     (if non_empty v \<and> \<not> strict_eq v (lastValue s) then [v] else [])"
  by (simp add: notifyOfExternalUpdate_changed notifyOfExternalUpdate_unchanged emitted_emit)

lemma notifyOfExternalUpdate_frame:
  "valueForwarder (updated (notifyOfExternalUpdate v s)) = valueForwarder s
   \<and> valueRequestor (updated (notifyOfExternalUpdate v s)) = valueRequestor s
   \<and> listeners (updated (notifyOfExternalUpdate v s)) = listeners s"
  by (simp add: notifyOfExternalUpdate_def split: prod.splits)

lemma notifyOfExternalUpdate_stores:
  assumes "non_empty v"
  shows "lastValue (updated (notifyOfExternalUpdate v s)) = v"
proof (cases "strict_eq v (lastValue s)")
  case True
  then have "v = lastValue s" by (rule strict_eq_same)
  with True show ?thesis by (simp add: notifyOfExternalUpdate_unchanged)
next
  case False
  with assms show ?thesis by (simp add: notifyOfExternalUpdate_changed)
qed

text \<open>
  Claim C4, as the spec has it: with no forwarder, the second of two calls \<open>set(x)\<close> in a
  row changes nothing and emits nothing, for every value \<open>x\<close>. NaN is a value no value is
  strictly equal to: the level is at 10, \<open>set(NaN)\<close> emits a change event, and
  \<open>set(NaN)\<close> again finds that NaN differs from the stored NaN, stores it and emits a
  second change event.
\<close>

theorem set_twice_counterexample:
  "valueForwarder level = None
   \<and> emitted (trace_of (set_value (JNumber NaN) level ())) = [JNumber NaN]
   \<and> emitted (trace_of (set_value (JNumber NaN)
        (value_of (set_value (JNumber NaN) level ()))
        (world_of (set_value (JNumber NaN) level ())))) = [JNumber NaN]
   \<and> notified (trace_of (set_value (JNumber NaN)
        (value_of (set_value (JNumber NaN) level ()))
        (world_of (set_value (JNumber NaN) level ())))) =
       [(1, JNumber NaN), (2, JNumber NaN)]"
  by (simp add: set_value_def notifyOfExternalUpdate_def strict_eq_def emit_def level_def
      ten_def on_def new_Value_def hears_def)

text \<open>
  Claim C4, amended. For every object with no forwarder and every value \<open>x\<close> other than
  NaN, of two calls \<open>set(x)\<close> in a row the first emits one change event, carrying \<open>x\<close>,
  when \<open>x\<close> is neither undefined nor null and is not strictly equal to the prior
  \<open>lastValue\<close>, and none otherwise, and is fulfilled when no listener raises on \<open>x\<close>;
  the second is fulfilled, leaves the object as the first left it and has no effect at
  all. So the two calls emit at most one change event in total.
\<close>

theorem set_twice:
  assumes "valueForwarder s = None" and "x \<noteq> JNumber NaN"
  shows "((\<forall>l \<in> set (listeners s). reaction l x = None) \<longrightarrow>
            outcome_of (set_value x s w) = Fulfilled ())
         \<and> emitted (trace_of (set_value x s w)) =
             (if non_empty x \<and> \<not> strict_eq x (lastValue s) then [x] else [])
         \<and> outcome_of (set_value x (value_of (set_value x s w)) (world_of (set_value x s w))) =
             Fulfilled ()
         \<and> value_of (set_value x (value_of (set_value x s w)) (world_of (set_value x s w))) =
             value_of (set_value x s w)
         \<and> trace_of (set_value x (value_of (set_value x s w)) (world_of (set_value x s w))) = []
         \<and> emitted (trace_of (set_value x s w)
             @ trace_of (set_value x (value_of (set_value x s w)) (world_of (set_value x s w)))) =
             (if non_empty x \<and> \<not> strict_eq x (lastValue s) then [x] else [])"
proof -
  define s1 where "s1 = updated (notifyOfExternalUpdate x s)"
  have first: "set_value x s w =
      \<lparr>outcome_of = then_promise (thrown (notifyOfExternalUpdate x s)) (), value_of = s1,
       world_of = w, trace_of = effects (notifyOfExternalUpdate x s)\<rparr>"
    using assms(1) by (simp add: set_value_no_forwarder s1_def)
  have quiet: "(\<forall>l \<in> set (listeners s). reaction l x = None) \<longrightarrow>
      outcome_of (set_value x s w) = Fulfilled ()"
  proof
    assume "\<forall>l \<in> set (listeners s). reaction l x = None"
    then have "thrown (notifyOfExternalUpdate x s) = None"
      using notifyOfExternalUpdate_thrown [of x s] by auto
    then show "outcome_of (set_value x s w) = Fulfilled ()"
      by (simp add: first then_promise_def)
  qed
  have kept: "valueForwarder s1 = None"
    using assms(1) by (simp add: s1_def notifyOfExternalUpdate_frame)
  have settled: "\<not> (non_empty x \<and> \<not> strict_eq x (lastValue s1))"
  proof (cases "non_empty x \<and> \<not> strict_eq x (lastValue s)")
    case True
    then have "lastValue s1 = x"
      by (simp add: s1_def notifyOfExternalUpdate_changed)
    with assms(2) show ?thesis
      by (simp add: strict_eq_refl)
  next
    case False
    then have "s1 = s"
      by (simp add: s1_def notifyOfExternalUpdate_unchanged)
    with False show ?thesis by simp
  qed
  then have "notifyOfExternalUpdate x s1 = \<lparr>updated = s1, effects = [], thrown = None\<rparr>"
    by (rule notifyOfExternalUpdate_unchanged)
  with kept have second: "set_value x s1 w =
      \<lparr>outcome_of = Fulfilled (), value_of = s1, world_of = w, trace_of = []\<rparr>"
    by (simp add: set_value_no_forwarder then_promise_def)
  have rest: "emitted (trace_of (set_value x s w)) =
             (if non_empty x \<and> \<not> strict_eq x (lastValue s) then [x] else [])
         \<and> outcome_of (set_value x (value_of (set_value x s w)) (world_of (set_value x s w))) =
             Fulfilled ()
         \<and> value_of (set_value x (value_of (set_value x s w)) (world_of (set_value x s w))) =
             value_of (set_value x s w)
         \<and> trace_of (set_value x (value_of (set_value x s w)) (world_of (set_value x s w))) = []
         \<and> emitted (trace_of (set_value x s w)
             @ trace_of (set_value x (value_of (set_value x s w)) (world_of (set_value x s w)))) =
             (if non_empty x \<and> \<not> strict_eq x (lastValue s) then [x] else [])"
    by (simp add: first second notifyOfExternalUpdate_emitted)
  from quiet rest show ?thesis
    by (intro conjI) simp_all
qed

text \<open>
  The scenario of the spec: the level is at 10. \<open>set(20)\<close> emits one change event with
  20, and \<open>set(20)\<close> again emits nothing and leaves the level at 20.
\<close>

theorem set_twice_witness:
  "valueForwarder level = None
   \<and> twenty \<noteq> JNumber NaN
   \<and> outcome_of (set_value twenty level ()) = Fulfilled ()
   \<and> emitted (trace_of (set_value twenty level ())) = [twenty]
   \<and> trace_of (set_value twenty (value_of (set_value twenty level ()))
        (world_of (set_value twenty level ()))) = []
   \<and> lastValue (value_of (set_value twenty (value_of (set_value twenty level ()))
        (world_of (set_value twenty level ())))) = twenty"
proof -
  have none: "valueForwarder level = None"
    by (simp add: level_def on_def new_Value_def)
  have number: "twenty \<noteq> JNumber NaN"
    by (simp add: twenty_def)
  have quiet: "\<forall>l \<in> set (listeners level). reaction l twenty = None"
    by (simp add: level_def on_def new_Value_def hears_def)
  have differs: "non_empty twenty \<and> \<not> strict_eq twenty (lastValue level)"
    by (simp add: non_empty_def strict_eq_def twenty_def ten_def level_def on_def new_Value_def)
  have stored: "lastValue (value_of (set_value twenty level ())) = twenty"
    by (simp add: set_value_def notifyOfExternalUpdate_def strict_eq_def twenty_def ten_def
        level_def on_def new_Value_def split: prod.splits)
  from set_twice [OF none number, of "()"] quiet differs none number stored show ?thesis
    by simp
qed

section \<open>The stored value is never empty\<close>

lemma notifyOfExternalUpdate_non_empty:
  assumes "non_empty (lastValue s)"
  shows "non_empty (lastValue (updated (notifyOfExternalUpdate v s)))"
  using assms by (simp add: notifyOfExternalUpdate_def non_empty_def split: prod.splits)

lemma set_value_non_empty:
  assumes "non_empty (lastValue s)"
  shows "non_empty (lastValue (value_of (set_value v s w)))"
proof (cases "valueForwarder s")
  case None
  with assms show ?thesis
    by (simp add: set_value_no_forwarder notifyOfExternalUpdate_non_empty)
next
  case (Some f)
  from set_value_with_forwarder [OF Some, of v w] assms show ?thesis
    by (simp add: notifyOfExternalUpdate_non_empty)
qed

lemma get_value_non_empty:
  assumes "non_empty (lastValue s)"
  shows "non_empty (lastValue (value_of (get_value s w)))"
proof (cases "valueRequestor s")
  case None
  with assms show ?thesis by (simp add: get_value_no_requestor)
next
  case (Some r)
  obtain x w' where call: "r w = (x, w')" by (cases "r w")
  from Some call assms show ?thesis
    by (cases x)
      (simp_all add: get_value_returns get_value_throws get_value_rejects get_value_never
        notifyOfExternalUpdate_non_empty)
qed

lemma apply_operation_non_empty:
  assumes "non_empty (lastValue (fst c))"
  shows "non_empty (lastValue (fst (apply_operation x c)))"
proof (cases c)
  case (Pair s w)
  with assms show ?thesis
    by (cases x)
      (simp_all add: set_value_non_empty get_value_non_empty notifyOfExternalUpdate_non_empty
        on_def)
qed

lemma apply_operations_non_empty:
  assumes "non_empty (lastValue (fst c))"
  shows "non_empty (lastValue (fst (apply_operations xs c)))"
  using assms by (induction xs arbitrary: c) (simp_all add: apply_operation_non_empty)

text \<open>
  Claim C10. An object constructed with an initial value that is neither null nor
  undefined, with any forwarder and requestor or none, holds a \<open>lastValue\<close> that is
  neither null nor undefined after every sequence of \<open>set\<close>, \<open>get\<close> and
  \<open>notifyOfExternalUpdate\<close> calls (and registrations of listeners), whatever their
  arguments, whatever the callbacks answer and from whatever state of the backing system.
\<close>

theorem lastValue_never_empty:
  assumes "initialValue \<noteq> JNull" and "initialValue \<noteq> JUndefined"
  shows "lastValue (fst (apply_operations xs (new_Value initialValue forwarder requestor, w)))
           \<noteq> JNull
         \<and> lastValue (fst (apply_operations xs (new_Value initialValue forwarder requestor, w)))
           \<noteq> JUndefined"
proof -
  have "non_empty (lastValue (fst (new_Value initialValue forwarder requestor, w)))"
    using assms by (simp add: new_Value_def non_empty_def)
  then have "non_empty (lastValue
      (fst (apply_operations xs (new_Value initialValue forwarder requestor, w))))"
    by (rule apply_operations_non_empty)
  then show ?thesis
    by (simp add: non_empty_def)
qed

text \<open>
  A switch that starts at "off" and whose requestor answers null: after \<open>set(null)\<close>,
  \<open>get()\<close>, an update with undefined and \<open>set("on")\<close> it holds "on".
\<close>

theorem lastValue_never_empty_witness:
  "JString ''off'' \<noteq> JNull \<and> JString ''off'' \<noteq> JUndefined
   \<and> lastValue (fst (apply_operations
        [Set JNull, Get, NotifyOfExternalUpdate JUndefined, Set (JString ''on'')]
        (new_Value (JString ''off'') None (Some (returning JNull)), ()))) = JString ''on''
   \<and> lastValue (fst (apply_operations
        [Set JNull, Get, NotifyOfExternalUpdate JUndefined, Set (JString ''on'')]
        (new_Value (JString ''off'') None (Some (returning JNull)), ()))) \<noteq> JNull"
proof -
  have a: "JString ''off'' \<noteq> JNull" and b: "JString ''off'' \<noteq> JUndefined"
    by simp_all
  have "lastValue (fst (apply_operations
        [Set JNull, Get, NotifyOfExternalUpdate JUndefined, Set (JString ''on'')]
        (new_Value (JString ''off'') None (Some (returning JNull)), ()))) = JString ''on''"
    by (simp add: set_value_def get_value_def notifyOfExternalUpdate_def strict_eq_def
        new_Value_def returning_def emit_def)
  with lastValue_never_empty [OF a b, of
      "[Set JNull, Get, NotifyOfExternalUpdate JUndefined, Set (JString ''on'')]"
      None "Some (returning JNull)" "()"]
  show ?thesis
    by simp
qed

section \<open>The order of two calls of set\<close>

lemma emitted_append: "emitted (t @ t') = emitted t @ emitted t'"
  by (induction t rule: emitted.induct) simp_all

lemma set_call_events: "emitted (snd (snd (set_call v s w))) = []"
  by (simp add: set_call_def split: option.splits prod.splits)

lemma set_call_frame:
  assumes "valueForwarder s' = valueForwarder s"
  shows "set_call v s' w = set_call v s w"
  using assms by (simp add: set_call_def)

text \<open>One call followed to its end is the call and then its continuation.\<close>

lemma set_value_split:
  "set_value v s w =
     (case set_call v s w of
        (r, w', t) \<Rightarrow>
          \<lparr>outcome_of = outcome_of (set_then v r s w'), value_of = value_of (set_then v r s w'),
           world_of = w', trace_of = t @ trace_of (set_then v r s w')\<rparr>)"
proof (cases "valueForwarder s")
  case None
  then show ?thesis
    by (simp add: set_value_no_forwarder set_call_def set_then_def)
next
  case (Some f)
  obtain r w' where call: "f v w = (r, w')" by (cases "f v w")
  from Some call show ?thesis
    by (cases r)
      (simp_all add: set_value_returns set_value_throws set_value_rejects set_value_never
        set_call_def set_then_def)
qed

lemma set_then_fulfilled:
  "set_then v (Returns ()) s w =
     \<lparr>outcome_of = then_promise (thrown (notifyOfExternalUpdate v s)) (),
      value_of = updated (notifyOfExternalUpdate v s), world_of = w,
      trace_of = effects (notifyOfExternalUpdate v s)\<rparr>"
  by (simp add: set_then_def)

lemma sequential_sets_fulfilled:
  assumes "set_call a s w = (Returns (), wa, ta)" and "set_call b s wa = (Returns (), wb, tb)"
  shows "sequential_sets a b s w =
    \<lparr>first_outcome = then_promise (thrown (notifyOfExternalUpdate a s)) (),
     second_outcome =
       then_promise
         (thrown (notifyOfExternalUpdate b (updated (notifyOfExternalUpdate a s)))) (),
     value_after = updated (notifyOfExternalUpdate b (updated (notifyOfExternalUpdate a s))),
     world_after = wb,
     trace_all = ta @ effects (notifyOfExternalUpdate a s) @ tb
       @ effects (notifyOfExternalUpdate b (updated (notifyOfExternalUpdate a s)))\<rparr>"
proof -
  have first: "set_value a s w =
      \<lparr>outcome_of = then_promise (thrown (notifyOfExternalUpdate a s)) (),
       value_of = updated (notifyOfExternalUpdate a s), world_of = wa,
       trace_of = ta @ effects (notifyOfExternalUpdate a s)\<rparr>"
    using assms(1) by (simp add: set_value_split set_then_fulfilled)
  have "set_call b (updated (notifyOfExternalUpdate a s)) wa = set_call b s wa"
    by (rule set_call_frame) (simp add: notifyOfExternalUpdate_frame)
  with assms(2) have second: "set_value b (updated (notifyOfExternalUpdate a s)) wa =
      \<lparr>outcome_of =
         then_promise
           (thrown (notifyOfExternalUpdate b (updated (notifyOfExternalUpdate a s)))) (),
       value_of = updated (notifyOfExternalUpdate b (updated (notifyOfExternalUpdate a s))),
       world_of = wb,
       trace_of = tb @ effects (notifyOfExternalUpdate b (updated (notifyOfExternalUpdate a s)))\<rparr>"
    by (simp add: set_value_split set_then_fulfilled)
  show ?thesis
    by (simp add: sequential_sets_def first second)
qed

lemma overlapping_sets_fulfilled:
  assumes "set_call a s w = (Returns (), wa, ta)" and "set_call b s wa = (Returns (), wb, tb)"
  shows "overlapping_sets a b False s w =
    \<lparr>first_outcome = then_promise (thrown (notifyOfExternalUpdate a s)) (),
     second_outcome =
       then_promise
         (thrown (notifyOfExternalUpdate b (updated (notifyOfExternalUpdate a s)))) (),
     value_after = updated (notifyOfExternalUpdate b (updated (notifyOfExternalUpdate a s))),
     world_after = wb,
     trace_all = ta @ tb @ effects (notifyOfExternalUpdate a s)
       @ effects (notifyOfExternalUpdate b (updated (notifyOfExternalUpdate a s)))\<rparr>"
    and "overlapping_sets a b True s w =
    \<lparr>first_outcome =
       then_promise
         (thrown (notifyOfExternalUpdate a (updated (notifyOfExternalUpdate b s)))) (),
     second_outcome = then_promise (thrown (notifyOfExternalUpdate b s)) (),
     value_after = updated (notifyOfExternalUpdate a (updated (notifyOfExternalUpdate b s))),
     world_after = wb,
     trace_all = ta @ tb @ effects (notifyOfExternalUpdate b s)
       @ effects (notifyOfExternalUpdate a (updated (notifyOfExternalUpdate b s)))\<rparr>"
  using assms by (simp_all add: overlapping_sets_def set_then_fulfilled)

text \<open>
  Claim C9. Two calls \<open>set(a)\<close> and \<open>set(b)\<close> whose calls of the forwarder succeed (or
  with no forwarder). Made one after the other without overlap, the effects of the second
  come after the update procedure of the first is complete: the second call of the
  forwarder and the second update follow the first update, and the second update works on
  the object as the first left it. Made with overlap, the forwarder is called for both
  before any update, and the update procedures run in the order in which the calls of the
  forwarder are settled, the later one on the object as the earlier one left it. The last
  update wins: \<open>lastValue\<close> is the value of the update that ran last, when that value is
  neither undefined nor null. Each of the two changes is emitted on its own, if and only
  if its value is neither undefined nor null and is not strictly equal to the \<open>lastValue\<close>
  stored at the moment its update runs.
\<close>

theorem set_calls_ordering:
  assumes "fst (set_call a s w) = Returns ()"
    and "fst (set_call b s (fst (snd (set_call a s w)))) = Returns ()"
  shows "value_after (sequential_sets a b s w) =
           updated (notifyOfExternalUpdate b (updated (notifyOfExternalUpdate a s)))
         \<and> trace_all (sequential_sets a b s w) =
             snd (snd (set_call a s w)) @ effects (notifyOfExternalUpdate a s)
             @ snd (snd (set_call b s (fst (snd (set_call a s w)))))
             @ effects (notifyOfExternalUpdate b (updated (notifyOfExternalUpdate a s)))
         \<and> value_after (overlapping_sets a b False s w) =
             updated (notifyOfExternalUpdate b (updated (notifyOfExternalUpdate a s)))
         \<and> trace_all (overlapping_sets a b False s w) =
             snd (snd (set_call a s w)) @ snd (snd (set_call b s (fst (snd (set_call a s w)))))
             @ effects (notifyOfExternalUpdate a s)
             @ effects (notifyOfExternalUpdate b (updated (notifyOfExternalUpdate a s)))
         \<and> value_after (overlapping_sets a b True s w) =
             updated (notifyOfExternalUpdate a (updated (notifyOfExternalUpdate b s)))
         \<and> trace_all (overlapping_sets a b True s w) =
             snd (snd (set_call a s w)) @ snd (snd (set_call b s (fst (snd (set_call a s w)))))
             @ effects (notifyOfExternalUpdate b s)
             @ effects (notifyOfExternalUpdate a (updated (notifyOfExternalUpdate b s)))
         \<and> (non_empty b \<longrightarrow>
              lastValue (value_after (sequential_sets a b s w)) = b
              \<and> lastValue (value_after (overlapping_sets a b False s w)) = b)
         \<and> (non_empty a \<longrightarrow> lastValue (value_after (overlapping_sets a b True s w)) = a)
         \<and> emitted (trace_all (overlapping_sets a b False s w)) =
             (if non_empty a \<and> \<not> strict_eq a (lastValue s) then [a] else [])
             @ (if non_empty b
                  \<and> \<not> strict_eq b (lastValue (updated (notifyOfExternalUpdate a s)))
                then [b] else [])
         \<and> emitted (trace_all (overlapping_sets a b True s w)) =
             (if non_empty b \<and> \<not> strict_eq b (lastValue s) then [b] else [])
             @ (if non_empty a
                  \<and> \<not> strict_eq a (lastValue (updated (notifyOfExternalUpdate b s)))
                then [a] else [])"
proof -
  obtain ra wa ta where ca: "set_call a s w = (ra, wa, ta)"
    by (cases "set_call a s w")
  obtain rb wb tb where cb: "set_call b s wa = (rb, wb, tb)"
    by (cases "set_call b s wa")
  from assms ca cb have ra: "ra = Returns ()" and rb: "rb = Returns ()"
    by simp_all
  have quiet_a: "emitted ta = []"
    using set_call_events [of a s w] by (simp add: ca)
  have quiet_b: "emitted tb = []"
    using set_call_events [of b s wa] by (simp add: cb)
  note sequential = sequential_sets_fulfilled [OF ca [unfolded ra] cb [unfolded rb]]
  note overlapping = overlapping_sets_fulfilled [OF ca [unfolded ra] cb [unfolded rb]]
  have orders: "value_after (sequential_sets a b s w) =
           updated (notifyOfExternalUpdate b (updated (notifyOfExternalUpdate a s)))
         \<and> trace_all (sequential_sets a b s w) =
             snd (snd (set_call a s w)) @ effects (notifyOfExternalUpdate a s)
             @ snd (snd (set_call b s (fst (snd (set_call a s w)))))
             @ effects (notifyOfExternalUpdate b (updated (notifyOfExternalUpdate a s)))
         \<and> value_after (overlapping_sets a b False s w) =
             updated (notifyOfExternalUpdate b (updated (notifyOfExternalUpdate a s)))
         \<and> trace_all (overlapping_sets a b False s w) =
             snd (snd (set_call a s w)) @ snd (snd (set_call b s (fst (snd (set_call a s w)))))
             @ effects (notifyOfExternalUpdate a s)
             @ effects (notifyOfExternalUpdate b (updated (notifyOfExternalUpdate a s)))
         \<and> value_after (overlapping_sets a b True s w) =
             updated (notifyOfExternalUpdate a (updated (notifyOfExternalUpdate b s)))
         \<and> trace_all (overlapping_sets a b True s w) =
             snd (snd (set_call a s w)) @ snd (snd (set_call b s (fst (snd (set_call a s w)))))
             @ effects (notifyOfExternalUpdate b s)
             @ effects (notifyOfExternalUpdate a (updated (notifyOfExternalUpdate b s)))"
    by (simp add: sequential overlapping ca cb)
  have last_b: "non_empty b \<longrightarrow>
              lastValue (value_after (sequential_sets a b s w)) = b
              \<and> lastValue (value_after (overlapping_sets a b False s w)) = b"
    by (simp add: sequential overlapping notifyOfExternalUpdate_stores)
  have last_a: "non_empty a \<longrightarrow> lastValue (value_after (overlapping_sets a b True s w)) = a"
    by (simp add: overlapping notifyOfExternalUpdate_stores)
  have events: "emitted (trace_all (overlapping_sets a b False s w)) =
             (if non_empty a \<and> \<not> strict_eq a (lastValue s) then [a] else [])
             @ (if non_empty b
                  \<and> \<not> strict_eq b (lastValue (updated (notifyOfExternalUpdate a s)))
                then [b] else [])"
    and events': "emitted (trace_all (overlapping_sets a b True s w)) =
             (if non_empty b \<and> \<not> strict_eq b (lastValue s) then [b] else [])
             @ (if non_empty a
                  \<and> \<not> strict_eq a (lastValue (updated (notifyOfExternalUpdate b s)))
                then [a] else [])"
    by (simp_all only: overlapping two_runs.simps emitted_append quiet_a quiet_b append_Nil
        notifyOfExternalUpdate_emitted)
  from orders last_b last_a events events' show ?thesis
    by (intro conjI) simp_all
qed

text \<open>
  The lamp is "off". \<open>set("on")\<close> and \<open>set("dim")\<close> overlap and the promise of the second
  call of the forwarder is fulfilled first: the lamp was told "on", then "dim"; the object
  stores "dim", then "on", tells its listeners each time, and holds "on". Without overlap
  it holds "dim".
\<close>

theorem set_calls_ordering_witness:
  "fst (set_call (JString ''on'') lamp []) = Returns ()
   \<and> world_after (overlapping_sets (JString ''on'') (JString ''dim'') True lamp []) =
       [JString ''on'', JString ''dim'']
   \<and> trace_all (overlapping_sets (JString ''on'') (JString ''dim'') True lamp []) =
       [ForwarderCalled (JString ''on''), ForwarderCalled (JString ''dim''),
        Assigned (JString ''dim''), EmitUpdate (JString ''dim''),
        ListenerCalled 1 (JString ''dim''), ListenerCalled 2 (JString ''dim''),
        Assigned (JString ''on''), EmitUpdate (JString ''on''),
        ListenerCalled 1 (JString ''on''), ListenerCalled 2 (JString ''on'')]
   \<and> lastValue (value_after (overlapping_sets (JString ''on'') (JString ''dim'') True lamp []))
       = JString ''on''
   \<and> lastValue (value_after (overlapping_sets (JString ''on'') (JString ''dim'') False lamp []))
       = JString ''dim''
   \<and> lastValue (value_after (sequential_sets (JString ''on'') (JString ''dim'') lamp []))
       = JString ''dim''"
proof -
  have first: "fst (set_call (JString ''on'') lamp []) = Returns ()"
    by (simp add: set_call_def lamp_def on_def new_Value_def pushing_def)
  have second: "fst (set_call (JString ''dim'') lamp (fst (snd (set_call (JString ''on'') lamp []))))
      = Returns ()"
    by (simp add: set_call_def lamp_def on_def new_Value_def pushing_def)
  have filled: "non_empty (JString ''on'')" "non_empty (JString ''dim'')"
    by (simp_all add: non_empty_def)
  have pushed: "world_after (overlapping_sets (JString ''on'') (JString ''dim'') True lamp []) =
       [JString ''on'', JString ''dim'']"
    by (simp add: overlapping_sets_def set_call_def Let_def lamp_def on_def new_Value_def
        pushing_def)
  have calls: "snd (snd (set_call (JString ''on'') lamp [])) = [ForwarderCalled (JString ''on'')]"
    "snd (snd (set_call (JString ''dim'') lamp (fst (snd (set_call (JString ''on'') lamp [])))))
      = [ForwarderCalled (JString ''dim'')]"
    by (simp_all add: set_call_def lamp_def on_def new_Value_def pushing_def)
  have updates: "effects (notifyOfExternalUpdate (JString ''dim'') lamp) =
      [Assigned (JString ''dim''), EmitUpdate (JString ''dim''),
       ListenerCalled 1 (JString ''dim''), ListenerCalled 2 (JString ''dim'')]"
    "effects (notifyOfExternalUpdate (JString ''on'')
        (updated (notifyOfExternalUpdate (JString ''dim'') lamp))) =
      [Assigned (JString ''on''), EmitUpdate (JString ''on''),
       ListenerCalled 1 (JString ''on''), ListenerCalled 2 (JString ''on'')]"
    by (simp_all add: notifyOfExternalUpdate_def emit_def strict_eq_def lamp_def on_def
        new_Value_def hears_def)
  from set_calls_ordering [OF first second] filled
  have "trace_all (overlapping_sets (JString ''on'') (JString ''dim'') True lamp []) =
      snd (snd (set_call (JString ''on'') lamp []))
      @ snd (snd (set_call (JString ''dim'') lamp (fst (snd (set_call (JString ''on'') lamp [])))))
      @ effects (notifyOfExternalUpdate (JString ''dim'') lamp)
      @ effects (notifyOfExternalUpdate (JString ''on'')
          (updated (notifyOfExternalUpdate (JString ''dim'') lamp)))
    \<and> lastValue (value_after (overlapping_sets (JString ''on'') (JString ''dim'') True lamp []))
       = JString ''on''
    \<and> lastValue (value_after (overlapping_sets (JString ''on'') (JString ''dim'') False lamp []))
       = JString ''dim''
    \<and> lastValue (value_after (sequential_sets (JString ''on'') (JString ''dim'') lamp []))
       = JString ''dim''"
    by blast
  with first pushed show ?thesis
    by (simp add: calls updates)
qed

end
